theory Spec2Isabelle
  imports Complex_Main
begin

section \<open>MinMaxNormalizer (tensortrade/features/scalers/min\_max\_normalizer.py)\<close>

text \<open>
  A shallow embedding of \<^verbatim>\<open>MinMaxNormalizer\<close>. A finite floating-point number is the real
  number it denotes. What Python and numpy compute from such numbers is rounded, and in
  which format depends on the dtypes of the table and of the bound arrays; these operations
  are not code of the transformer, and the model takes each of them as a parameter.
  Python's integers are unbounded and their arithmetic is exact.
\<close>

subsection \<open>Python values the transformer works with\<close>

datatype error =
    KeyError string      \<comment> \<open>\<^verbatim>\<open>X[column]\<close> for a column the table does not have\<close>
  | IndexError           \<comment> \<open>\<^verbatim>\<open>input_space.low[idx]\<close> beyond the end of the array\<close>
  | ZeroDivisionError    \<comment> \<open>\<^verbatim>\<open>1/len(X[column])\<close> on a column of no rows\<close>
  | TypeError            \<comment> \<open>\<^verbatim>\<open>len(shape_x)\<close> for an integer \<^verbatim>\<open>shape_x\<close>\<close>
  | ValueError           \<comment> \<open>\<^verbatim>\<open>shape_x, *shape_y = ()\<close>: nothing to unpack\<close>

text \<open>
  \<^verbatim>\<open>feature_min\<close> and \<^verbatim>\<open>feature_max\<close> are Python numbers: the defaults \<^verbatim>\<open>0\<close> and
  \<^verbatim>\<open>1\<close> are integers, the annotation says float. The difference is visible in the
  synthesized column name (\<^verbatim>\<open>'{}'.format(0)\<close> is \<^verbatim>\<open>0\<close>, of \<^verbatim>\<open>0.0\<close> it is \<^verbatim>\<open>0.0\<close>).
\<close>

datatype pynum = PyInt int | PyFloat real

fun num_val :: "pynum \<Rightarrow> real" where
  "num_val (PyInt i) = of_int i"
| "num_val (PyFloat r) = r"

text \<open>
  The operations of Python and numpy that the transformer relies on, one field for each
  place of the source:
  \<^item> \<open>float_str\<close>: the text of a float in \<^verbatim>\<open>'{}'.format(x)\<close>;
  \<^item> \<open>int_to_float\<close>, \<open>float_sub\<close>, \<open>float_add\<close>: Python's \<^verbatim>\<open>-\<close> and \<^verbatim>\<open>+\<close> when an operand
    is a float (an integer operand is converted first), in
    \<^verbatim>\<open>(self._feature_max - self._feature_min) + self._feature_min\<close>;
  \<^item> \<open>bound_sub\<close>: \<^verbatim>\<open>high - low\<close> on the two numpy scalars, in the dtype of the bound arrays
    (an integer dtype wraps around, a float dtype rounds);
  \<^item> \<open>column_sub\<close>, \<open>column_div\<close>, \<open>column_mul\<close>: \<^verbatim>\<open>X[column] - low\<close>, the division by
    \<^verbatim>\<open>(high - low)\<close> and the multiplication by \<^verbatim>\<open>scale\<close>, row by row;
  \<^item> \<open>recip_len\<close>, \<open>scalar_mul\<close>: \<^verbatim>\<open>1/len(X[column])\<close> and its product with \<^verbatim>\<open>scale\<close>.

  Infinities and NaN are not real numbers and are outside the model.
\<close>

record python =
  float_str :: "real \<Rightarrow> string"
  int_to_float :: "int \<Rightarrow> real"
  float_sub :: "real \<Rightarrow> real \<Rightarrow> real"
  float_add :: "real \<Rightarrow> real \<Rightarrow> real"
  bound_sub :: "real \<Rightarrow> real \<Rightarrow> real"
  column_sub :: "real \<Rightarrow> real \<Rightarrow> real"
  column_div :: "real \<Rightarrow> real \<Rightarrow> real"
  column_mul :: "real \<Rightarrow> pynum \<Rightarrow> real"
  recip_len :: "nat \<Rightarrow> real"
  scalar_mul :: "real \<Rightarrow> pynum \<Rightarrow> real"

fun as_float :: "python \<Rightarrow> pynum \<Rightarrow> real" where
  "as_float py (PyInt i) = int_to_float py i"
| "as_float py (PyFloat r) = r"

fun py_sub :: "python \<Rightarrow> pynum \<Rightarrow> pynum \<Rightarrow> pynum" where
  "py_sub py (PyInt a) (PyInt b) = PyInt (a - b)"
| "py_sub py a b = PyFloat (float_sub py (as_float py a) (as_float py b))"

fun py_add :: "python \<Rightarrow> pynum \<Rightarrow> pynum \<Rightarrow> pynum" where
  "py_add py (PyInt a) (PyInt b) = PyInt (a + b)"
| "py_add py a b = PyFloat (float_add py (as_float py a) (as_float py b))"

text \<open>Decimal digits of a natural number, most significant first, as \<^verbatim>\<open>str\<close> prints them.\<close>

definition digit_char :: "nat \<Rightarrow> char" where
  "digit_char d = ''0123456789'' ! d"

fun digits10 :: "nat \<Rightarrow> string" where
  "digits10 n = (if n < 10 then [digit_char n] else digits10 (n div 10) @ [digit_char (n mod 10)])"

declare digits10.simps [simp del]

definition int_str :: "int \<Rightarrow> string" where
  "int_str i = (if i < 0 then CHR ''-'' # digits10 (nat (- i)) else digits10 (nat i))"

text \<open>
  \<^verbatim>\<open>'{}'.format(x)\<close> for a number \<open>x\<close>. The text of a float is produced by Python's own
  \<^verbatim>\<open>float.__repr__\<close>, the parameter \<open>float_str\<close>.
\<close>

fun py_format :: "python \<Rightarrow> pynum \<Rightarrow> string" where
  "py_format py (PyInt i) = int_str i"
| "py_format py (PyFloat r) = float_str py r"

subsection \<open>Tables and space descriptors\<close>

text \<open>
  A \<^verbatim>\<open>pandas.DataFrame\<close> is an ordered association of column names to columns of numbers;
  its column names are \<^verbatim>\<open>list(X.columns)\<close>. A \<^verbatim>\<open>gym.Space\<close> is read through its \<^verbatim>\<open>shape\<close>
  (a tuple of integers) and its one-dimensional \<^verbatim>\<open>low\<close> and \<^verbatim>\<open>high\<close> arrays.
\<close>

type_synonym series = "real list"
type_synonym table = "(string \<times> series) list"

record space =
  shape :: "int list"
  low :: "real list"
  high :: "real list"

definition table_columns :: "table \<Rightarrow> string list" where
  "table_columns X = map fst X"

text \<open>\<^verbatim>\<open>X[column]\<close>: the column, or a \<^verbatim>\<open>KeyError\<close>.\<close>

definition getitem :: "table \<Rightarrow> string \<Rightarrow> error + series" where
  "getitem X column = (case map_of X column of None \<Rightarrow> Inl (KeyError column) | Some col \<Rightarrow> Inr col)"

text \<open>
  \<^verbatim>\<open>X.assign(**{column: values})\<close>: a table in which the named column holds \<open>values\<close>.
  A column that exists keeps its position, a new one goes to the end.
\<close>

primrec assign :: "table \<Rightarrow> string \<Rightarrow> series \<Rightarrow> table" where
  "assign [] column values = [(column, values)]"
| "assign (p # ps) column values =
     (if fst p = column then (column, values) # ps else p # assign ps column values)"

text \<open>\<^verbatim>\<open>a[idx]\<close> on a one-dimensional array, for \<open>idx \<ge> 0\<close>.\<close>

definition array_get :: "real list \<Rightarrow> nat \<Rightarrow> error + real" where
  "array_get a idx = (if idx < length a then Inr (a ! idx) else Inl IndexError)"

text \<open>\<^verbatim>\<open>len(i)\<close> for an integer \<open>i\<close>: Python raises \<^verbatim>\<open>TypeError\<close>, an int has no length.\<close>

definition py_len_int :: "int \<Rightarrow> error + nat" where
  "py_len_int i = Inl TypeError"

subsection \<open>The transformer\<close>

text \<open>
  Modelled from the spec: the base class \<^verbatim>\<open>FeatureTransformer\<close>, which is not among the
  sources, keeps the two constructor arguments \<^verbatim>\<open>columns\<close> (a list of names, or
  \<^verbatim>\<open>None\<close>) and \<^verbatim>\<open>inplace\<close>; \<^verbatim>\<open>MinMaxNormalizer.__init__\<close> adds the two bounds of the range.
\<close>

record normalizer =
  columns :: "string list option"
  feature_min :: pynum
  feature_max :: pynum
  inplace :: bool

definition init :: "string list option \<Rightarrow> pynum \<Rightarrow> pynum \<Rightarrow> bool \<Rightarrow> normalizer" where
  "init cols fmin fmax inpl =
     \<lparr>columns = cols, feature_min = fmin, feature_max = fmax, inplace = inpl\<rparr>"

subsubsection \<open>\<^verbatim>\<open>transform_space\<close>\<close>

text \<open>
  \<^verbatim>\<open>columns = self.columns or range(len(shape_x))\<close>. Only the number of elements of
  \<open>columns\<close> is used afterwards. \<^verbatim>\<open>None\<close> and the empty list are both false in Python.
\<close>

definition columns_or_range :: "normalizer \<Rightarrow> int \<Rightarrow> error + nat" where
  "columns_or_range self shape_x =
     (case columns self of
        Some (c # cs) \<Rightarrow> Inr (length (c # cs))
      | _ \<Rightarrow> (case py_len_int shape_x of Inl e \<Rightarrow> Inl e | Inr k \<Rightarrow> Inr (length [0..<k])))"

text \<open>One round of the loop: \<^verbatim>\<open>np.append\<close> on \<open>low\<close> and on \<open>high\<close>.\<close>

definition append_bounds :: "normalizer \<Rightarrow> space \<Rightarrow> space" where
  "append_bounds self output_space =
     output_space\<lparr>low := low output_space @ [num_val (feature_min self)],
                  high := high output_space @ [num_val (feature_max self)]\<rparr>"

definition transform_space :: "normalizer \<Rightarrow> space \<Rightarrow> string list \<Rightarrow> error + space" where
  "transform_space self input_space column_names =
     (if inplace self then Inr input_space
      else
        (case shape input_space of
           [] \<Rightarrow> Inl ValueError
         | shape_x # shape_y \<Rightarrow>
            (case columns_or_range self shape_x of
               Inl e \<Rightarrow> Inl e
             | Inr len_columns \<Rightarrow>
                 Inr ((append_bounds self ^^ len_columns)
                        (input_space\<lparr>shape := (shape_x + int len_columns) # shape_y\<rparr>)))))"

subsubsection \<open>\<^verbatim>\<open>transform\<close>\<close>

definition scale :: "python \<Rightarrow> normalizer \<Rightarrow> pynum" where
  "scale py self = py_add py (py_sub py (feature_max self) (feature_min self)) (feature_min self)"

text \<open>The name of the column that receives the normalized values.\<close>

definition destination :: "python \<Rightarrow> normalizer \<Rightarrow> string \<Rightarrow> string" where
  "destination py self column =
     (if \<not> inplace self
      then column @ ''_minmax_'' @ py_format py (feature_min self)
             @ ''_'' @ py_format py (feature_max self)
      else column)"

text \<open>
  \<^verbatim>\<open>normalized_column\<close>. The test \<^verbatim>\<open>high - low == 0\<close> is on two finite bounds of one dtype,
  whose computed difference is zero exactly when they are equal; the value of the
  difference that the other branch divides by is the computed one. In the degenerate
  branch Python computes one number, which \<^verbatim>\<open>assign\<close> then writes into every row of the
  table; a table has as many rows as each of its columns, \<^verbatim>\<open>len(X[column])\<close>.
\<close>

definition normalized_column ::
  "python \<Rightarrow> normalizer \<Rightarrow> real \<Rightarrow> real \<Rightarrow> table \<Rightarrow> string \<Rightarrow> error + series" where
  "normalized_column py self lo hi X column =
     (if hi - lo = 0 then
        (case getitem X column of
           Inl e \<Rightarrow> Inl e
         | Inr col \<Rightarrow>
             if length col = 0 then Inl ZeroDivisionError
             else Inr (replicate (length col)
                         (scalar_mul py (recip_len py (length col)) (scale py self))))
      else
        (case getitem X column of
           Inl e \<Rightarrow> Inl e
         | Inr col \<Rightarrow>
             Inr (map (\<lambda>v. column_mul py (column_div py (column_sub py v lo) (bound_sub py hi lo))
                                (scale py self)) col)))"

text \<open>The body of the loop, for the pair \<open>(idx, column)\<close> of \<^verbatim>\<open>enumerate(self.columns)\<close>.\<close>

definition transform_column ::
  "python \<Rightarrow> normalizer \<Rightarrow> space \<Rightarrow> nat \<Rightarrow> string \<Rightarrow> table \<Rightarrow> error + table" where
  "transform_column py self input_space idx column X =
     (case array_get (low input_space) idx of
        Inl e \<Rightarrow> Inl e
      | Inr lo \<Rightarrow>
         (case array_get (high input_space) idx of
            Inl e \<Rightarrow> Inl e
          | Inr hi \<Rightarrow>
             (case normalized_column py self lo hi X column of
                Inl e \<Rightarrow> Inl e
              | Inr values \<Rightarrow> Inr (assign X (destination py self column) values))))"

fun transform_loop ::
  "python \<Rightarrow> normalizer \<Rightarrow> space \<Rightarrow> nat \<Rightarrow> string list \<Rightarrow> table \<Rightarrow> error + table" where
  "transform_loop py self input_space idx [] X = Inr X"
| "transform_loop py self input_space idx (column # rest) X =
     (case transform_column py self input_space idx column X of
        Inl e \<Rightarrow> Inl e
      | Inr X' \<Rightarrow> transform_loop py self input_space (Suc idx) rest X')"

text \<open>
  \<^verbatim>\<open>transform\<close> returns the table or the exception, together with the transformer, whose
  \<open>columns\<close> the first lines may have set. The assignment to \<^verbatim>\<open>self.columns\<close> comes before
  the loop, so it stays when the loop raises. (\<^verbatim>\<open>enumerate(None)\<close> would be a
  \<^verbatim>\<open>TypeError\<close>; after the first two lines \<open>columns\<close> is never \<^verbatim>\<open>None\<close>.)
\<close>

definition resolve_columns :: "normalizer \<Rightarrow> table \<Rightarrow> normalizer" where
  "resolve_columns self X =
     (if columns self = None then self\<lparr>columns := Some (table_columns X)\<rparr> else self)"

definition transform ::
  "python \<Rightarrow> normalizer \<Rightarrow> table \<Rightarrow> space \<Rightarrow> (error + table) \<times> normalizer" where
  "transform py self X input_space =
     (let self' = resolve_columns self X in
      (case columns self' of
         None \<Rightarrow> (Inl TypeError, self')
       | Some cs \<Rightarrow> (transform_loop py self' input_space 0 cs X, self')))"

subsection \<open>Objects and references\<close>

text \<open>
  Python passes references. To say what a call leaves alone, the objects live in a store:
  a list of objects, a reference being a position in it. A new object goes to the end, so the
  objects a caller holds keep their positions. A \<^verbatim>\<open>Space\<close> holds its shape (a tuple, a
  value) and references to its \<open>low\<close> and \<open>high\<close> arrays; a \<^verbatim>\<open>DataFrame\<close> holds its columns.
\<close>

type_synonym addr = nat

datatype obj =
    ArrayObj "real list"
  | SpaceObj "int list" addr addr
  | FrameObj table

type_synonym heap = "obj list"

definition alloc :: "heap \<Rightarrow> obj \<Rightarrow> heap \<times> addr" where
  "alloc h ob = (h @ [ob], length h)"

definition deref :: "heap \<Rightarrow> addr \<Rightarrow> obj option" where
  "deref h a = (if a < length h then Some (h ! a) else None)"

text \<open>
  Reading an object of the expected class through a reference. A reference to an object of
  another class does not occur for well-typed arguments; the model answers \<open>TypeError\<close>.
\<close>

definition read_array :: "heap \<Rightarrow> addr \<Rightarrow> error + real list" where
  "read_array h a = (case deref h a of Some (ArrayObj xs) \<Rightarrow> Inr xs | _ \<Rightarrow> Inl TypeError)"

definition read_frame :: "heap \<Rightarrow> addr \<Rightarrow> error + table" where
  "read_frame h a = (case deref h a of Some (FrameObj tbl) \<Rightarrow> Inr tbl | _ \<Rightarrow> Inl TypeError)"

definition read_fields :: "heap \<Rightarrow> addr \<Rightarrow> error + (int list \<times> addr \<times> addr)" where
  "read_fields h a =
     (case deref h a of Some (SpaceObj shp lo hi) \<Rightarrow> Inr (shp, lo, hi) | _ \<Rightarrow> Inl TypeError)"

text \<open>
  \<^verbatim>\<open>copy(input_space)\<close> is a shallow copy: a new object with the same fields, so the copy of
  a space refers to the same two arrays. \<^verbatim>\<open>np.append(a, v)\<close> allocates a new array and leaves
  \<open>a\<close> alone. \<^verbatim>\<open>output_space.low = \<dots>\<close> and its like write one field of the object
  \<open>output_space\<close> refers to.
\<close>

definition py_copy :: "heap \<Rightarrow> addr \<Rightarrow> error + (heap \<times> addr)" where
  "py_copy h a = (case deref h a of None \<Rightarrow> Inl TypeError | Some ob \<Rightarrow> Inr (alloc h ob))"

definition np_append :: "heap \<Rightarrow> addr \<Rightarrow> real \<Rightarrow> error + (heap \<times> addr)" where
  "np_append h arr v =
     (case read_array h arr of Inl e \<Rightarrow> Inl e | Inr xs \<Rightarrow> Inr (alloc h (ArrayObj (xs @ [v]))))"

definition set_shape :: "heap \<Rightarrow> addr \<Rightarrow> int list \<Rightarrow> error + heap" where
  "set_shape h a shp =
     (case read_fields h a of Inl e \<Rightarrow> Inl e | Inr (_, lo, hi) \<Rightarrow> Inr (h[a := SpaceObj shp lo hi]))"

definition set_low :: "heap \<Rightarrow> addr \<Rightarrow> addr \<Rightarrow> error + heap" where
  "set_low h a lo =
     (case read_fields h a of Inl e \<Rightarrow> Inl e | Inr (shp, _, hi) \<Rightarrow> Inr (h[a := SpaceObj shp lo hi]))"

definition set_high :: "heap \<Rightarrow> addr \<Rightarrow> addr \<Rightarrow> error + heap" where
  "set_high h a hi =
     (case read_fields h a of Inl e \<Rightarrow> Inl e | Inr (shp, lo, _) \<Rightarrow> Inr (h[a := SpaceObj shp lo hi]))"

text \<open>\<^verbatim>\<open>transform_space\<close> on the store. One round of its loop:\<close>

definition append_bounds_h :: "normalizer \<Rightarrow> addr \<Rightarrow> heap \<Rightarrow> heap \<times> (error + unit)" where
  "append_bounds_h self output_space h =
     (case read_fields h output_space of
        Inl e \<Rightarrow> (h, Inl e)
      | Inr (_, lo, _) \<Rightarrow>
         (case np_append h lo (num_val (feature_min self)) of
            Inl e \<Rightarrow> (h, Inl e)
          | Inr (h1, lo') \<Rightarrow>
             (case set_low h1 output_space lo' of
                Inl e \<Rightarrow> (h1, Inl e)
              | Inr h2 \<Rightarrow>
                 (case read_fields h2 output_space of
                    Inl e \<Rightarrow> (h2, Inl e)
                  | Inr (_, _, hi) \<Rightarrow>
                     (case np_append h2 hi (num_val (feature_max self)) of
                        Inl e \<Rightarrow> (h2, Inl e)
                      | Inr (h3, hi') \<Rightarrow>
                         (case set_high h3 output_space hi' of
                            Inl e \<Rightarrow> (h3, Inl e)
                          | Inr h4 \<Rightarrow> (h4, Inr ())))))))"

fun append_loop :: "normalizer \<Rightarrow> addr \<Rightarrow> nat \<Rightarrow> heap \<Rightarrow> heap \<times> (error + unit)" where
  "append_loop self output_space 0 h = (h, Inr ())"
| "append_loop self output_space (Suc n) h =
     (case append_bounds_h self output_space h of
        (h', Inl e) \<Rightarrow> (h', Inl e)
      | (h', Inr _) \<Rightarrow> append_loop self output_space n h')"

definition transform_space_h ::
  "normalizer \<Rightarrow> heap \<Rightarrow> addr \<Rightarrow> string list \<Rightarrow> heap \<times> (error + addr)" where
  "transform_space_h self h input_space column_names =
     (if inplace self then (h, Inr input_space)
      else
        (case py_copy h input_space of
           Inl e \<Rightarrow> (h, Inl e)
         | Inr (h1, output_space) \<Rightarrow>
            (case read_fields h1 input_space of
               Inl e \<Rightarrow> (h1, Inl e)
             | Inr (shp, _, _) \<Rightarrow>
                (case shp of
                   [] \<Rightarrow> (h1, Inl ValueError)
                 | shape_x # shape_y \<Rightarrow>
                    (case columns_or_range self shape_x of
                       Inl e \<Rightarrow> (h1, Inl e)
                     | Inr len_columns \<Rightarrow>
                        (case set_shape h1 output_space ((shape_x + int len_columns) # shape_y) of
                           Inl e \<Rightarrow> (h1, Inl e)
                         | Inr h2 \<Rightarrow>
                            (case append_loop self output_space len_columns h2 of
                               (h3, Inl e) \<Rightarrow> (h3, Inl e)
                             | (h3, Inr _) \<Rightarrow> (h3, Inr output_space))))))))"

text \<open>
  \<^verbatim>\<open>transform\<close> on the store. \<^verbatim>\<open>X.assign(\<dots>)\<close> returns a new \<^verbatim>\<open>DataFrame\<close>, to which the
  local variable \<open>X\<close> then refers; the columns computed in between are values.
\<close>

definition transform_column_h ::
  "python \<Rightarrow> normalizer \<Rightarrow> addr \<Rightarrow> nat \<Rightarrow> string \<Rightarrow> heap \<Rightarrow> addr \<Rightarrow> heap \<times> (error + addr)" where
  "transform_column_h py self input_space idx column h X =
     (case read_fields h input_space of
        Inl e \<Rightarrow> (h, Inl e)
      | Inr (_, low_ref, high_ref) \<Rightarrow>
         (case read_array h low_ref of
            Inl e \<Rightarrow> (h, Inl e)
          | Inr lows \<Rightarrow>
             (case array_get lows idx of
                Inl e \<Rightarrow> (h, Inl e)
              | Inr lo \<Rightarrow>
                 (case read_array h high_ref of
                    Inl e \<Rightarrow> (h, Inl e)
                  | Inr highs \<Rightarrow>
                     (case array_get highs idx of
                        Inl e \<Rightarrow> (h, Inl e)
                      | Inr hi \<Rightarrow>
                         (case read_frame h X of
                            Inl e \<Rightarrow> (h, Inl e)
                          | Inr tbl \<Rightarrow>
                             (case normalized_column py self lo hi tbl column of
                                Inl e \<Rightarrow> (h, Inl e)
                              | Inr vals \<Rightarrow>
                                 (case alloc h (FrameObj (assign tbl (destination py self column) vals)) of
                                    (h', X') \<Rightarrow> (h', Inr X')))))))))"

fun transform_loop_h ::
  "python \<Rightarrow> normalizer \<Rightarrow> addr \<Rightarrow> nat \<Rightarrow> string list \<Rightarrow> heap \<Rightarrow> addr \<Rightarrow> heap \<times> (error + addr)" where
  "transform_loop_h py self input_space idx [] h X = (h, Inr X)"
| "transform_loop_h py self input_space idx (column # rest) h X =
     (case transform_column_h py self input_space idx column h X of
        (h', Inl e) \<Rightarrow> (h', Inl e)
      | (h', Inr X') \<Rightarrow> transform_loop_h py self input_space (Suc idx) rest h' X')"

definition transform_h ::
  "python \<Rightarrow> normalizer \<Rightarrow> heap \<Rightarrow> addr \<Rightarrow> addr \<Rightarrow> heap \<times> (error + addr) \<times> normalizer" where
  "transform_h py self h X input_space =
     (case columns self of
        None \<Rightarrow>
          (case read_frame h X of
             Inl e \<Rightarrow> (h, Inl e, self)
           | Inr tbl \<Rightarrow>
               (case transform_loop_h py (self\<lparr>columns := Some (table_columns tbl)\<rparr>)
                       input_space 0 (table_columns tbl) h X of
                  (h', r) \<Rightarrow> (h', r, self\<lparr>columns := Some (table_columns tbl)\<rparr>)))
      | Some cs \<Rightarrow>
          (case transform_loop_h py self input_space 0 cs h X of
             (h', r) \<Rightarrow> (h', r, self)))"

text \<open>The descriptor a reference stands for: its shape and the contents of its two arrays.\<close>

definition space_at :: "heap \<Rightarrow> addr \<Rightarrow> error + space" where
  "space_at h a =
     (case read_fields h a of
        Inl e \<Rightarrow> Inl e
      | Inr (shp, lo, hi) \<Rightarrow>
         (case read_array h lo of
            Inl e \<Rightarrow> Inl e
          | Inr lows \<Rightarrow>
             (case read_array h hi of
                Inl e \<Rightarrow> Inl e
              | Inr highs \<Rightarrow> Inr \<lparr>shape = shp, low = lows, high = highs\<rparr>)))"

text \<open>The objects below \<open>n\<close> are the same in both heaps, and the second heap is no shorter.\<close>

definition same_below :: "nat \<Rightarrow> heap \<Rightarrow> heap \<Rightarrow> bool" where
  "same_below n h h' \<longleftrightarrow> length h \<le> length h' \<and> take n h' = take n h"

subsection \<open>Concrete inputs\<close>

text \<open>
  For the evaluations below: Python on tables, bounds and features that are all 64-bit
  floats (or integers), so that every operation is the exact result rounded to the nearest
  double, ties to the even significand. \<open>round64\<close> does this for results within the finite
  range of doubles, subnormal numbers included.
\<close>

fun bit_length :: "nat \<Rightarrow> nat" where
  "bit_length n = (if n = 0 then 0 else Suc (bit_length (n div 2)))"

declare bit_length.simps [simp del]

definition pow2 :: "int \<Rightarrow> real" where
  "pow2 e = (if 0 \<le> e then 2 ^ nat e else 1 / 2 ^ nat (- e))"

text \<open>The integer \<open>k\<close> with \<open>2 ^ k \<le> x < 2 ^ (k + 1)\<close>, for positive \<open>x\<close>.\<close>

definition ilog2 :: "real \<Rightarrow> int" where
  "ilog2 x = (if 1 \<le> x then int (bit_length (nat \<lfloor>x\<rfloor>)) - 1
              else - int (bit_length (nat (\<lceil>1 / x\<rceil> - 1))))"

definition round_half_even :: "real \<Rightarrow> int" where
  "round_half_even x =
     (if x - of_int \<lfloor>x\<rfloor> < 1 / 2 then \<lfloor>x\<rfloor>
      else if 1 / 2 < x - of_int \<lfloor>x\<rfloor> then \<lfloor>x\<rfloor> + 1
      else if even \<lfloor>x\<rfloor> then \<lfloor>x\<rfloor> else \<lfloor>x\<rfloor> + 1)"

definition round64 :: "real \<Rightarrow> real" where
  "round64 x =
     (if x = 0 then 0
      else sgn x * of_int (round_half_even (\<bar>x\<bar> / pow2 (max (ilog2 \<bar>x\<bar> - 52) (- 1074))))
             * pow2 (max (ilog2 \<bar>x\<bar> - 52) (- 1074)))"

text \<open>No float is formatted in these evaluations; \<open>float_str\<close> is the empty text.\<close>

definition python64 :: python where
  "python64 =
     \<lparr>float_str = (\<lambda>r. []),
      int_to_float = (\<lambda>i. round64 (of_int i)),
      float_sub = (\<lambda>a b. round64 (a - b)),
      float_add = (\<lambda>a b. round64 (a + b)),
      bound_sub = (\<lambda>a b. round64 (a - b)),
      column_sub = (\<lambda>a b. round64 (a - b)),
      column_div = (\<lambda>a b. round64 (a / b)),
      column_mul = (\<lambda>a s. round64 (a * (case s of PyInt i \<Rightarrow> round64 (of_int i) | PyFloat r \<Rightarrow> r))),
      recip_len = (\<lambda>n. round64 (1 / real n)),
      scalar_mul = (\<lambda>a s. round64 (a * (case s of PyInt i \<Rightarrow> round64 (of_int i) | PyFloat r \<Rightarrow> r)))\<rparr>"

section \<open>Properties\<close>

subsection \<open>Auxiliary facts about the table operations and the loop\<close>

lemma funpow_append_bounds:
  "(append_bounds self ^^ k) sp =
     sp\<lparr>low := low sp @ replicate k (num_val (feature_min self)),
        high := high sp @ replicate k (num_val (feature_max self))\<rparr>"
  by (induction k arbitrary: sp) (simp_all add: append_bounds_def replicate_append_same)

lemma map_of_assign: "map_of (assign X c v) = (map_of X)(c \<mapsto> v)"
  by (induction X) (auto simp add: fun_eq_iff)

lemma keys_assign: "fst ` set (assign X c v) = insert c (fst ` set X)"
  by (induction X) auto

lemma table_columns_assign:
  "table_columns (assign X c v) =
     (if c \<in> set (table_columns X) then table_columns X else table_columns X @ [c])"
  by (induction X) (auto simp add: table_columns_def)

lemma destination_inj [simp]:
  "destination fs self a = destination fs self b \<longleftrightarrow> a = b"
  by (simp add: destination_def)



lemma normalized_column_cong:
  "map_of X c = map_of Y c \<Longrightarrow> normalized_column fs self lo hi X c = normalized_column fs self lo hi Y c"
  by (simp add: normalized_column_def getitem_def)

lemma transform_column_Inr:
  "transform_column fs self sp idx c X = Inr X' \<longleftrightarrow>
     idx < length (low sp) \<and> idx < length (high sp) \<and>
     (\<exists>values. normalized_column fs self (low sp ! idx) (high sp ! idx) X c = Inr values \<and>
        X' = assign X (destination fs self c) values)"
  by (auto simp add: transform_column_def array_get_def split: sum.splits)

lemma transform_loop_Cons_Inr:
  "transform_loop fs self sp idx (c # cs) X = Inr X' \<longleftrightarrow>
     (\<exists>X1. transform_column fs self sp idx c X = Inr X1 \<and>
           transform_loop fs self sp (Suc idx) cs X1 = Inr X')"
  by (auto split: sum.splits)

lemma loop_frame:
  "transform_loop fs self sp idx cs X = Inr X' \<Longrightarrow> d \<notin> destination fs self ` set cs \<Longrightarrow>
     map_of X' d = map_of X d"
proof (induction cs arbitrary: idx X)
  case Nil
  then show ?case by simp
next
  case (Cons c cs)
  from Cons.prems(1) [unfolded transform_loop_Cons_Inr] obtain X1 where
    step: "transform_column fs self sp idx c X = Inr X1" and
    rest: "transform_loop fs self sp (Suc idx) cs X1 = Inr X'"
    by blast
  from step obtain vals where X1: "X1 = assign X (destination fs self c) vals"
    by (auto simp add: transform_column_Inr)
  have "map_of X' d = map_of X1 d"
    using Cons.IH [OF rest] Cons.prems(2) by simp
  also have "\<dots> = map_of X d"
    using Cons.prems(2) by (simp add: X1 map_of_assign)
  finally show ?case .
qed

lemma loop_result:
  "transform_loop fs self sp idx cs X = Inr X' \<Longrightarrow> i < length cs \<Longrightarrow>
   (\<forall>j<i. destination fs self (cs ! j) \<noteq> cs ! i) \<Longrightarrow>
   (\<forall>j. i < j \<and> j < length cs \<longrightarrow> cs ! j \<noteq> cs ! i) \<Longrightarrow>
   idx + i < length (low sp) \<and> idx + i < length (high sp) \<and>
   (\<exists>values. normalized_column fs self (low sp ! (idx + i)) (high sp ! (idx + i)) X (cs ! i) = Inr values \<and>
      map_of X' (destination fs self (cs ! i)) = Some values)"
proof (induction cs arbitrary: idx X i)
  case Nil
  then show ?case by simp
next
  case (Cons c cs)
  from Cons.prems(1) [unfolded transform_loop_Cons_Inr] obtain X1 where
    step: "transform_column fs self sp idx c X = Inr X1" and
    rest: "transform_loop fs self sp (Suc idx) cs X1 = Inr X'"
    by blast
  from step obtain vals where
    rng: "idx < length (low sp)" "idx < length (high sp)" and
    nc: "normalized_column fs self (low sp ! idx) (high sp ! idx) X c = Inr vals" and
    X1: "X1 = assign X (destination fs self c) vals"
    by (auto simp add: transform_column_Inr)
  show ?case
  proof (cases i)
    case 0
    have "destination fs self c \<notin> destination fs self ` set cs"
    proof
      assume "destination fs self c \<in> destination fs self ` set cs"
      then have "c \<in> set cs" by auto
      then obtain k where "k < length cs" "cs ! k = c" by (auto simp add: in_set_conv_nth)
      with Cons.prems(4) [rule_format, of "Suc k"] 0 show False by simp
    qed
    from loop_frame [OF rest this]
    have "map_of X' (destination fs self c) = Some vals"
      by (simp add: X1 map_of_assign)
    with 0 rng nc show ?thesis by simp
  next
    case (Suc i')
    have a: "i' < length cs" using Cons.prems(2) Suc by simp
    have b: "\<forall>j<i'. destination fs self (cs ! j) \<noteq> cs ! i'"
      using Cons.prems(3) [rule_format, of "Suc j" for j] Suc by auto
    have c: "\<forall>j. i' < j \<and> j < length cs \<longrightarrow> cs ! j \<noteq> cs ! i'"
      using Cons.prems(4) [rule_format, of "Suc j" for j] Suc by auto
    have ne: "destination fs self c \<noteq> cs ! i'"
      using Cons.prems(3) [rule_format, of 0] Suc by simp
    have same: "map_of X1 (cs ! i') = map_of X (cs ! i')"
      using ne by (simp add: X1 map_of_assign)
    from Cons.IH [OF rest a b c] normalized_column_cong [OF same]
    show ?thesis using Suc by simp
  qed
qed


lemma set_assign: "set (assign X c v) \<subseteq> insert (c, v) (set X)"
  by (induction X) auto



lemma loop_zero_rows:
  "list_all (\<lambda>p. snd p = []) X \<Longrightarrow> i < length cs \<Longrightarrow>
   idx + i < length (low sp) \<Longrightarrow> idx + i < length (high sp) \<Longrightarrow>
   high sp ! (idx + i) - low sp ! (idx + i) = 0 \<Longrightarrow>
   (\<forall>j\<le>i. cs ! j \<in> fst ` set X) \<Longrightarrow>
   transform_loop fs self sp idx cs X = Inl ZeroDivisionError"
proof (induction cs arbitrary: idx X i)
  case Nil
  then show ?case by simp
next
  case (Cons c cs)
  from Cons.prems(6) [rule_format, of 0] have "c \<in> fst ` set X" by simp
  then obtain col where col: "map_of X c = Some col"
    by (metis domD dom_map_of_conv_image_fst)
  from col have "(c, col) \<in> set X" by (rule map_of_SomeD)
  with Cons.prems(1) have empty: "col = []" by (auto simp add: list_all_iff)
  have rng: "idx < length (low sp)" "idx < length (high sp)"
    using Cons.prems(3,4) by simp_all
  show ?case
  proof (cases "high sp ! idx - low sp ! idx = 0")
    case True
    then show ?thesis
      using col empty rng
      by (simp add: transform_column_def array_get_def normalized_column_def getitem_def)
  next
    case False
    define X1 where "X1 = assign X (destination fs self c) []"
    have step: "transform_column fs self sp idx c X = Inr X1"
      using col empty rng False
      by (simp add: transform_column_def array_get_def normalized_column_def getitem_def X1_def)
    from False Cons.prems(5) obtain i' where i: "i = Suc i'" by (cases i) auto
    have a: "list_all (\<lambda>p. snd p = []) X1"
      using Cons.prems(1) set_assign [of X "destination fs self c" "[]"]
      unfolding X1_def list_all_iff by auto
    have b: "\<forall>j\<le>i'. cs ! j \<in> fst ` set X1"
      using Cons.prems(6) [rule_format, of "Suc j" for j] i
      by (auto simp add: X1_def keys_assign)
    have "transform_loop fs self sp (Suc idx) cs X1 = Inl ZeroDivisionError"
      using Cons.IH [OF a, of i' "Suc idx"] Cons.prems(2-5) b i by simp
    with step show ?thesis by simp
  qed
qed

lemma loop_missing:
  "i < length cs \<Longrightarrow> cs ! i \<notin> fst ` set X \<Longrightarrow> (\<forall>j<i. cs ! j \<in> fst ` set X) \<Longrightarrow>
   (\<forall>j<i. destination fs self (cs ! j) \<noteq> cs ! i) \<Longrightarrow>
   idx + i < length (low sp) \<Longrightarrow> idx + i < length (high sp) \<Longrightarrow>
   list_all (\<lambda>p. snd p \<noteq> []) X \<or> (\<forall>j<i. high sp ! (idx + j) - low sp ! (idx + j) \<noteq> 0) \<Longrightarrow>
   transform_loop fs self sp idx cs X = Inl (KeyError (cs ! i))"
proof (induction cs arbitrary: idx X i)
  case Nil
  then show ?case by simp
next
  case (Cons c cs)
  have rng: "idx < length (low sp)" "idx < length (high sp)"
    using Cons.prems(5,6) by simp_all
  show ?case
  proof (cases i)
    case 0
    with Cons.prems(2) have "map_of X c = None"
      by (simp add: map_of_eq_None_iff)
    with 0 rng show ?thesis
      by (simp add: transform_column_def array_get_def normalized_column_def getitem_def)
  next
    case (Suc i')
    from Cons.prems(3) [rule_format, of 0] Suc have "c \<in> fst ` set X" by simp
    then obtain col where col: "map_of X c = Some col"
      by (metis domD dom_map_of_conv_image_fst)
    from col have mem: "(c, col) \<in> set X" by (rule map_of_SomeD)
    have ok: "high sp ! idx - low sp ! idx = 0 \<Longrightarrow> col \<noteq> []"
      using Cons.prems(7) mem Suc by (auto simp add: list_all_iff)
    then obtain vals where
      nc: "normalized_column fs self (low sp ! idx) (high sp ! idx) X c = Inr vals" and
      vals: "col \<noteq> [] \<Longrightarrow> vals \<noteq> []"
      using col by (cases "high sp ! idx - low sp ! idx = 0")
        (auto simp add: normalized_column_def getitem_def)
    define X1 where "X1 = assign X (destination fs self c) vals"
    have step: "transform_column fs self sp idx c X = Inr X1"
      using nc rng by (simp add: transform_column_Inr X1_def)
    have ne: "destination fs self c \<noteq> cs ! i'"
      using Cons.prems(4) [rule_format, of 0] Suc by simp
    have a: "i' < length cs" using Cons.prems(1) Suc by simp
    have b: "cs ! i' \<notin> fst ` set X1"
      using Cons.prems(2) Suc ne by (auto simp add: X1_def keys_assign)
    have c: "\<forall>j<i'. cs ! j \<in> fst ` set X1"
      using Cons.prems(3) [rule_format, of "Suc j" for j] Suc
      by (auto simp add: X1_def keys_assign)
    have d: "\<forall>j<i'. destination fs self (cs ! j) \<noteq> cs ! i'"
      using Cons.prems(4) [rule_format, of "Suc j" for j] Suc by auto
    have e: "list_all (\<lambda>p. snd p \<noteq> []) X1 \<or>
        (\<forall>j<i'. high sp ! (Suc idx + j) - low sp ! (Suc idx + j) \<noteq> 0)"
    proof (cases "list_all (\<lambda>p. snd p \<noteq> []) X")
      case True
      with mem have "col \<noteq> []" by (auto simp add: list_all_iff)
      with vals have "vals \<noteq> []" by simp
      with True set_assign [of X "destination fs self c" vals]
      have "list_all (\<lambda>p. snd p \<noteq> []) X1"
        unfolding X1_def list_all_iff by auto
      then show ?thesis ..
    next
      case False
      with Cons.prems(7) have "\<forall>j<i. high sp ! (idx + j) - low sp ! (idx + j) \<noteq> 0" by simp
      then have "\<forall>j<i'. high sp ! (Suc idx + j) - low sp ! (Suc idx + j) \<noteq> 0"
        using Suc by (metis Suc_less_eq add_Suc_shift)
      then show ?thesis ..
    qed
    have "transform_loop fs self sp (Suc idx) cs X1 = Inl (KeyError (cs ! i'))"
      using Cons.IH [OF a b c d _ _ e] Cons.prems(5,6) Suc by simp
    with step Suc show ?thesis by simp
  qed
qed

lemma loop_columns:
  "transform_loop fs self sp idx cs X = Inr X' \<Longrightarrow> distinct cs \<Longrightarrow>
   (\<forall>c\<in>set cs. destination fs self c \<notin> set (table_columns X)) \<Longrightarrow>
   table_columns X' = table_columns X @ map (destination fs self) cs"
proof (induction cs arbitrary: idx X)
  case Nil
  then show ?case by simp
next
  case (Cons c cs)
  from Cons.prems(1) [unfolded transform_loop_Cons_Inr] obtain X1 where
    step: "transform_column fs self sp idx c X = Inr X1" and
    rest: "transform_loop fs self sp (Suc idx) cs X1 = Inr X'"
    by blast
  from step obtain vals where X1: "X1 = assign X (destination fs self c) vals"
    by (auto simp add: transform_column_Inr)
  have cols1: "table_columns X1 = table_columns X @ [destination fs self c]"
    using Cons.prems(3) by (simp add: X1 table_columns_assign)
  have "\<forall>c'\<in>set cs. destination fs self c' \<notin> set (table_columns X1)"
    using Cons.prems(2,3) by (auto simp add: cols1)
  from Cons.IH [OF rest _ this] Cons.prems(2) show ?case
    by (simp add: cols1)
qed

lemma resolve_fields [simp]:
  "inplace (resolve_columns self X) = inplace self"
  "feature_min (resolve_columns self X) = feature_min self"
  "feature_max (resolve_columns self X) = feature_max self"
  by (simp_all add: resolve_columns_def)

lemma destination_resolve [simp]:
  "destination fs (resolve_columns self X) = destination fs self"
  by (simp add: destination_def fun_eq_iff)

lemma scale_resolve [simp]: "scale fs (resolve_columns self X) = scale fs self"
  by (simp add: scale_def)

lemma normalized_column_resolve [simp]:
  "normalized_column fs (resolve_columns self X) = normalized_column fs self"
  by (auto simp add: normalized_column_def fun_eq_iff split: sum.splits)

lemma transform_Inr:
  "transform fs self X sp = (Inr X', self') \<Longrightarrow> columns self' = Some cs \<Longrightarrow>
     self' = resolve_columns self X \<and> transform_loop fs self' sp 0 cs X = Inr X'"
  by (auto simp add: transform_def Let_def split: option.splits)

lemma getitem_Inr: "getitem X c = Inr col \<longleftrightarrow> map_of X c = Some col"
  by (simp add: getitem_def split: option.splits)

lemmas eval_defs = transform_def resolve_columns_def table_columns_def transform_column_def
  array_get_def normalized_column_def getitem_def destination_def scale_def init_def
  int_str_def digits10.simps digit_char_def

lemmas float_defs = python64_def round64_def ilog2_def pow2_def round_half_even_def
  bit_length.simps

lemma fst_set_columns: "fst ` set X = set (table_columns X)"
  by (simp add: table_columns_def)

lemma last_position:
  "c \<in> set cs \<Longrightarrow> \<exists>i<length cs. cs ! i = c \<and> (\<forall>j. i < j \<and> j < length cs \<longrightarrow> cs ! j \<noteq> c)"
proof -
  assume "c \<in> set cs"
  then obtain ys zs where split: "cs = ys @ c # zs" and last: "c \<notin> set zs"
    by (auto dest: split_list_last)
  have "\<forall>j. length ys < j \<and> j < length cs \<longrightarrow> cs ! j \<noteq> c"
  proof (intro allI impI)
    fix j assume j: "length ys < j \<and> j < length cs"
    then have "cs ! j = zs ! (j - Suc (length ys))" and "j - Suc (length ys) < length zs"
      by (auto simp add: split nth_append nth_Cons')
    with last show "cs ! j \<noteq> c" by (metis nth_mem)
  qed
  then show ?thesis
    by (intro exI [of _ "length ys"]) (simp add: split)
qed

lemma loop_keys:
  "transform_loop fs self sp idx cs X = Inr X' \<Longrightarrow>
   fst ` set X' = fst ` set X \<union> destination fs self ` set cs"
proof (induction cs arbitrary: idx X)
  case Nil
  then show ?case by simp
next
  case (Cons c cs)
  from Cons.prems(1) [unfolded transform_loop_Cons_Inr] obtain X1 where
    step: "transform_column fs self sp idx c X = Inr X1" and
    rest: "transform_loop fs self sp (Suc idx) cs X1 = Inr X'"
    by blast
  from step obtain vals where X1: "X1 = assign X (destination fs self c) vals"
    by (auto simp add: transform_column_Inr)
  from Cons.IH [OF rest] show ?case
    by (auto simp add: X1 keys_assign)
qed





subsection \<open>The values \<^verbatim>\<open>transform\<close> writes\<close>









text \<open>
  C5. On a table of no rows, a tracked column with degenerate bounds makes \<open>transform\<close> end
  in the \<^verbatim>\<open>ZeroDivisionError\<close> of \<^verbatim>\<open>1/len(X[column])\<close>; nothing catches it. The loop gets as
  far as that column: the tracked columns up to it are columns of the table, and the bound
  arrays reach its position.
\<close>

theorem transform_zero_rows:
  assumes "list_all (\<lambda>p. snd p = []) X"
    and "columns (resolve_columns self X) = Some cs"
    and "idx < length cs" and "idx < length (low sp)" and "idx < length (high sp)"
    and "high sp ! idx - low sp ! idx = 0"
    and "\<forall>j\<le>idx. cs ! j \<in> set (table_columns X)"
  shows "fst (transform fs self X sp) = Inl ZeroDivisionError"
proof -
  have "transform_loop fs (resolve_columns self X) sp 0 cs X = Inl ZeroDivisionError"
    using assms by (intro loop_zero_rows [where i = idx]) (simp_all add: fst_set_columns)
  with assms(2) show ?thesis by (simp add: transform_def Let_def)
qed

theorem transform_zero_rows_witness:
  "fst (transform python64 (init None (PyInt 0) (PyInt 1) True)
     [(''a'', []), (''b'', [])] \<lparr>shape = [2], low = [0, 5], high = [1, 5]\<rparr>) = Inl ZeroDivisionError"
  using transform_zero_rows [of "[(''a'', []), (''b'', [])]" "init None (PyInt 0) (PyInt 1) True"
      "[''a'', ''b'']" 1 "\<lparr>shape = [2], low = [0, 5], high = [1, 5]\<rparr>" python64]
  by (simp add: resolve_columns_def init_def table_columns_def less_Suc_eq_le [symmetric] less_Suc_eq)

subsection \<open>The column set\<close>

text \<open>
  C4, as amended. An unset column set becomes the column names of the first table, in
  their order, and stays on the transformer. A later call on a table \<open>X2\<close> that lacks one of
  these columns raises the \<^verbatim>\<open>KeyError\<close> of the first missing column \<open>cs ! i\<close> and leaves the
  column set as it was, when the loop gets as far as that lookup (the bound arrays reach
  position \<open>i\<close>; no earlier degenerate column divides by a row count of zero) and, in append
  mode, no earlier tracked column has the missing name as its synthesized name.
\<close>

theorem lazy_columns_persist:
  assumes "columns self = None"
    and "transform fs self X sp = (r, self')"
    and "cs = table_columns X"
    and "i < length cs"
    and "cs ! i \<notin> set (table_columns X2)"
    and "\<forall>j<i. cs ! j \<in> set (table_columns X2)"
    and "i < length (low sp2)" and "i < length (high sp2)"
    and "list_all (\<lambda>p. snd p \<noteq> []) X2 \<or> (\<forall>j<i. high sp2 ! j - low sp2 ! j \<noteq> 0)"
    and "\<not> inplace self \<longrightarrow> (\<forall>j<i. destination fs self (cs ! j) \<noteq> cs ! i)"
  shows "self' = self\<lparr>columns := Some cs\<rparr> \<and>
         transform fs self' X2 sp2 = (Inl (KeyError (cs ! i)), self')"
proof -
  have self': "self' = self\<lparr>columns := Some cs\<rparr>"
    using assms(1,2,3) by (auto simp add: transform_def resolve_columns_def Let_def)
  have dest: "destination fs self' = destination fs self"
    by (simp add: self' destination_def fun_eq_iff)
  have h: "\<forall>j<i. destination fs self' (cs ! j) \<noteq> cs ! i"
  proof (cases "inplace self")
    case True
    then have "destination fs self' c = c" for c by (simp add: dest destination_def)
    with assms(5,6) show ?thesis by metis
  next
    case False
    with assms(10) show ?thesis by (simp add: dest)
  qed
  have "transform_loop fs self' sp2 0 cs X2 = Inl (KeyError (cs ! i))"
    using assms(4-9) h by (intro loop_missing) (simp_all add: fst_set_columns)
  then have "transform fs self' X2 sp2 = (Inl (KeyError (cs ! i)), self')"
    by (simp add: transform_def resolve_columns_def Let_def self')
  with self' show ?thesis by simp
qed

theorem lazy_columns_persist_witness:
  "transform python64
     (snd (transform python64 (init None (PyInt 0) (PyInt 1) True)
        [(''a'', [1, 2]), (''b'', [3, 4])] \<lparr>shape = [2], low = [0, 0], high = [10, 10]\<rparr>))
     [(''a'', [1, 2])] \<lparr>shape = [2], low = [0, 0], high = [10, 10]\<rparr>
   = (Inl (KeyError ''b''), init (Some [''a'', ''b'']) (PyInt 0) (PyInt 1) True)"
proof -
  have run: "transform python64 (init None (PyInt 0) (PyInt 1) True)
        [(''a'', [1, 2]), (''b'', [3, 4])] \<lparr>shape = [2], low = [0, 0], high = [10, 10]\<rparr>
      = (Inr [(''a'', [3602879701896397 / 2 ^ 55, 3602879701896397 / 2 ^ 54]),
              (''b'', [5404319552844595 / 2 ^ 54, 3602879701896397 / 2 ^ 53])],
         init (Some [''a'', ''b'']) (PyInt 0) (PyInt 1) True)"
    by (simp add: eval_defs float_defs)
  from lazy_columns_persist [OF _ run, of "[''a'', ''b'']" 1 "[(''a'', [1, 2])]"
      "\<lparr>shape = [2], low = [0, 0], high = [10, 10]\<rparr>"]
  show ?thesis
    by (simp add: run [unfolded init_def] init_def table_columns_def)
qed

text \<open>
  The claim C4 as stated fails in append mode: the first table has the columns \<open>a\<close> and
  \<open>a_minmax_0_1\<close>, the second only \<open>a\<close>, and the second call returns a table, since the
  loop itself creates \<open>a_minmax_0_1\<close> before it looks it up.
\<close>

theorem lazy_columns_missing_column_created:
  "snd (transform python64 (init None (PyInt 0) (PyInt 1) False)
      [(''a'', [1, 2]), (''a_minmax_0_1'', [3, 4])] \<lparr>shape = [2], low = [0, 0], high = [8, 8]\<rparr>)
     = init (Some [''a'', ''a_minmax_0_1'']) (PyInt 0) (PyInt 1) False \<and>
   ''a_minmax_0_1'' \<notin> set (table_columns [(''a'', [1, 2])]) \<and>
   transform python64 (init (Some [''a'', ''a_minmax_0_1'']) (PyInt 0) (PyInt 1) False)
      [(''a'', [1, 2])] \<lparr>shape = [2], low = [0, 0], high = [8, 8]\<rparr>
     = (Inr [(''a'', [1, 2]), (''a_minmax_0_1'', [1 / 8, 1 / 4]),
             (''a_minmax_0_1_minmax_0_1'', [1 / 64, 1 / 32])],
        init (Some [''a'', ''a_minmax_0_1'']) (PyInt 0) (PyInt 1) False)"
  by (simp add: eval_defs float_defs)

text \<open>
  C10. A transformer constructed with the empty list of columns returns every table as it
  is and keeps the empty list: on the first call, and on the call after it. Only \<^verbatim>\<open>None\<close>
  is resolved to the columns of the table.
\<close>

theorem transform_empty_columns:
  "transform fs (init (Some []) fmin fmax inpl) X sp = (Inr X, init (Some []) fmin fmax inpl) \<and>
   columns (snd (transform fs (init (Some []) fmin fmax inpl) X sp)) = Some [] \<and>
   transform fs (snd (transform fs (init (Some []) fmin fmax inpl) X sp)) X2 sp2
     = (Inr X2, init (Some []) fmin fmax inpl) \<and>
   columns (snd (transform fs (init None fmin fmax inpl) X sp)) = Some (table_columns X)"
  by (simp add: transform_def resolve_columns_def init_def Let_def)

subsection \<open>Append mode: names and the other columns\<close>

text \<open>
  C8, as amended. In append mode, when no column of the input table and no tracked column
  already bears a synthesized name: the values of every tracked column \<open>c\<close> are written to
  the column \<open>c_minmax_{feature_min}_{feature_max}\<close>, and every column of the input table,
  tracked or not, is in the returned table as it was.
\<close>

theorem append_mode_columns:
  assumes "\<not> inplace self"
    and "transform fs self X sp = (Inr X', self')"
    and "columns self' = Some cs"
    and "\<forall>c\<in>set cs. destination fs self c \<notin> set (table_columns X) \<union> set cs"
  shows "(\<forall>c\<in>set cs.
            destination fs self c =
              c @ ''_minmax_'' @ py_format fs (feature_min self) @ ''_'' @ py_format fs (feature_max self) \<and>
            (\<exists>idx<length cs. cs ! idx = c \<and>
               (\<exists>vals. normalized_column fs self (low sp ! idx) (high sp ! idx) X c = Inr vals \<and>
                  getitem X' (destination fs self c) = Inr vals))) \<and>
         (\<forall>c\<in>set (table_columns X). getitem X' c = getitem X c)"
proof (intro conjI ballI)
  note run = transform_Inr [OF assms(2,3)]
  note self' = run [THEN conjunct1] and loop = run [THEN conjunct2]
  have dest: "destination fs self' = destination fs self"
    by (simp add: self')
  {
    fix c assume c: "c \<in> set cs"
    show "destination fs self c =
        c @ ''_minmax_'' @ py_format fs (feature_min self) @ ''_'' @ py_format fs (feature_max self)"
      using assms(1) by (simp add: destination_def)
    from last_position [OF c] obtain i where
      i: "i < length cs" "cs ! i = c" "\<forall>j. i < j \<and> j < length cs \<longrightarrow> cs ! j \<noteq> cs ! i"
      by auto
    have h1: "\<forall>j<i. destination fs self' (cs ! j) \<noteq> cs ! i"
    proof (intro allI impI)
      fix j assume "j < i"
      with i(1) have "cs ! j \<in> set cs" by simp
      with assms(4) have "destination fs self (cs ! j) \<notin> set cs" by simp
      with i(1) show "destination fs self' (cs ! j) \<noteq> cs ! i"
        by (metis dest nth_mem)
    qed
    from loop_result [OF loop i(1) h1 i(3)] i(1,2)
    show "\<exists>idx<length cs. cs ! idx = c \<and>
       (\<exists>vals. normalized_column fs self (low sp ! idx) (high sp ! idx) X c = Inr vals \<and>
          getitem X' (destination fs self c) = Inr vals)"
      by (auto simp add: self' getitem_Inr intro!: exI [of _ i])
  }
  {
    fix c assume "c \<in> set (table_columns X)"
    with assms(4) have "c \<notin> destination fs self' ` set cs"
      by (auto simp add: dest)
    from loop_frame [OF loop this] show "getitem X' c = getitem X c"
      by (simp add: getitem_def)
  }
qed

theorem append_mode_columns_witness:
  "transform python64 (init None (PyInt 0) (PyInt 1) False)
       [(''price'', [10, 20, 30])] \<lparr>shape = [1], low = [10], high = [30]\<rparr>
     = (Inr [(''price'', [10, 20, 30]), (''price_minmax_0_1'', [0, 1 / 2, 1])],
        init (Some [''price'']) (PyInt 0) (PyInt 1) False) \<and>
   destination python64 (init None (PyInt 0) (PyInt 1) False) ''price'' = ''price_minmax_0_1'' \<and>
   getitem [(''price'', [10, 20, 30]), (''price_minmax_0_1'', [0, 1 / 2, 1])] ''price''
     = getitem [(''price'', [10, 20, 30])] ''price''"
proof -
  have run: "transform python64 (init None (PyInt 0) (PyInt 1) False)
       [(''price'', [10, 20, 30])] \<lparr>shape = [1], low = [10], high = [30]\<rparr>
     = (Inr [(''price'', [10, 20, 30]), (''price_minmax_0_1'', [0, 1 / 2, 1])],
        init (Some [''price'']) (PyInt 0) (PyInt 1) False)"
    by (simp add: eval_defs float_defs)
  have name: "destination python64 (init None (PyInt 0) (PyInt 1) False) ''price'' = ''price_minmax_0_1''"
    by (simp add: eval_defs)
  from append_mode_columns [OF _ run, of "[''price'']"] name run
  show ?thesis
    by (simp add: eval_defs)
qed

text \<open>
  The claim C8 as stated fails when the table already has a column of the synthesized
  name: \<^verbatim>\<open>assign\<close> overwrites the column \<open>price_minmax_0_1\<close>, which is not tracked.
\<close>

theorem append_mode_overwrites_existing_column:
  "transform python64 (init (Some [''price'']) (PyInt 0) (PyInt 1) False)
       [(''price'', [10, 20, 30]), (''price_minmax_0_1'', [7, 8, 9])]
       \<lparr>shape = [2], low = [10, 0], high = [30, 1]\<rparr>
     = (Inr [(''price'', [10, 20, 30]), (''price_minmax_0_1'', [0, 1 / 2, 1])],
        init (Some [''price'']) (PyInt 0) (PyInt 1) False) \<and>
   ''price_minmax_0_1'' \<notin> set [''price''] \<and>
   getitem [(''price'', [10, 20, 30]), (''price_minmax_0_1'', [0, 1 / 2, 1])] ''price_minmax_0_1''
     \<noteq> getitem [(''price'', [10, 20, 30]), (''price_minmax_0_1'', [7, 8, 9])] ''price_minmax_0_1''"
  by (simp add: eval_defs float_defs)

subsection \<open>\<^verbatim>\<open>transform_space\<close>\<close>

text \<open>
  C9. In place, \<open>transform_space\<close> returns its input descriptor, whatever the descriptor and
  the list of column names are.
\<close>

theorem transform_space_inplace:
  "inplace self \<Longrightarrow> transform_space self input_space column_names = Inr input_space"
  by (simp add: transform_space_def)

theorem transform_space_inplace_witness:
  "transform_space (init (Some [''a'', ''b'']) (PyInt 0) (PyInt 1) True)
     \<lparr>shape = [2], low = [0, 0], high = [1, 1]\<rparr> [''a'', ''b'']
   = Inr \<lparr>shape = [2], low = [0, 0], high = [1, 1]\<rparr>"
  using transform_space_inplace [of "init (Some [''a'', ''b'']) (PyInt 0) (PyInt 1) True"
      "\<lparr>shape = [2], low = [0, 0], high = [1, 1]\<rparr>" "[''a'', ''b'']"]
  by (simp add: init_def)

text \<open>
  C6. In append mode with a non-empty list of tracked columns, \<open>transform_space\<close> returns the
  input descriptor with the first element of its shape increased by the number of tracked
  columns, and with \<open>feature_min\<close> appended to \<open>low\<close> and \<open>feature_max\<close> to \<open>high\<close> once
  for each tracked column.
\<close>

theorem transform_space_append:
  assumes "\<not> inplace self" and "columns self = Some cs" and "cs \<noteq> []"
    and "shape input_space = shape_x # shape_y"
  shows "transform_space self input_space column_names =
    Inr (input_space\<lparr>shape := (shape_x + int (length cs)) # shape_y,
       low := low input_space @ replicate (length cs) (num_val (feature_min self)),
       high := high input_space @ replicate (length cs) (num_val (feature_max self))\<rparr>)"
proof -
  have "columns_or_range self shape_x = Inr (length cs)"
    using assms(2,3) by (cases cs) (simp_all add: columns_or_range_def)
  then show ?thesis
    using assms(1,4) by (simp add: transform_space_def funpow_append_bounds)
qed

theorem transform_space_append_witness:
  "transform_space (init (Some [''a'', ''b'']) (PyInt 0) (PyInt 1) False)
     \<lparr>shape = [2], low = [3, 4], high = [5, 6]\<rparr> []
   = Inr \<lparr>shape = [4], low = [3, 4, 0, 0], high = [5, 6, 1, 1]\<rparr>"
  using transform_space_append [of "init (Some [''a'', ''b'']) (PyInt 0) (PyInt 1) False"
      "[''a'', ''b'']" "\<lparr>shape = [2], low = [3, 4], high = [5, 6]\<rparr>" 2 "[]" "[]"]
  by (simp add: init_def numeral_2_eq_2)

lemma transform_space_fallback_raises:
  "\<not> inplace self \<Longrightarrow> columns self = None \<or> columns self = Some [] \<Longrightarrow>
   transform_space self input_space column_names =
     Inl (if shape input_space = [] then ValueError else TypeError)"
  by (auto simp add: transform_space_def columns_or_range_def py_len_int_def split: list.splits)

text \<open>
  C3. In append mode without a column set, \<open>transform_space\<close> does not return a descriptor:
  \<^verbatim>\<open>len(shape_x)\<close> is asked of the integer \<^verbatim>\<open>shape_x\<close> and raises \<^verbatim>\<open>TypeError\<close>. Here for the
  shape \<open>(2,)\<close>, where the claim expects the shape \<open>(4,)\<close>.
\<close>

theorem transform_space_fallback_type_error:
  "transform_space (init None (PyInt 0) (PyInt 1) False)
     \<lparr>shape = [2], low = [0, 0], high = [1, 1]\<rparr> [''a'', ''b''] = Inl TypeError"
  by (simp add: transform_space_def columns_or_range_def py_len_int_def init_def)

subsection \<open>What the two operations leave alone\<close>

text \<open>The operations on the store and the operations on values.\<close>

lemma read_fields_Inr:
  "read_fields h a = Inr (shp, lo, hi) \<longleftrightarrow> a < length h \<and> h ! a = SpaceObj shp lo hi"
  by (auto simp add: read_fields_def deref_def split: obj.splits)

lemma read_array_Inr: "read_array h a = Inr xs \<longleftrightarrow> a < length h \<and> h ! a = ArrayObj xs"
  by (auto simp add: read_array_def deref_def split: obj.splits)

lemma read_frame_Inr: "read_frame h a = Inr tbl \<longleftrightarrow> a < length h \<and> h ! a = FrameObj tbl"
  by (auto simp add: read_frame_def deref_def split: obj.splits)

lemma np_append_Inr:
  "np_append h arr v = Inr (h', a) \<longleftrightarrow>
     (\<exists>xs. read_array h arr = Inr xs \<and> h' = h @ [ArrayObj (xs @ [v])] \<and> a = length h)"
  by (auto simp add: np_append_def alloc_def split: sum.splits)

lemma py_copy_Inr:
  "py_copy h a = Inr (h', b) \<longleftrightarrow> a < length h \<and> h' = h @ [h ! a] \<and> b = length h"
  by (auto simp add: py_copy_def deref_def alloc_def)

lemma set_shape_Inr:
  "set_shape h a shp = Inr h' \<longleftrightarrow>
     (\<exists>s lo hi. read_fields h a = Inr (s, lo, hi) \<and> h' = h[a := SpaceObj shp lo hi])"
  by (auto simp add: set_shape_def split: sum.splits)

lemma set_low_Inr:
  "set_low h a lo = Inr h' \<longleftrightarrow>
     (\<exists>shp l hi. read_fields h a = Inr (shp, l, hi) \<and> h' = h[a := SpaceObj shp lo hi])"
  by (auto simp add: set_low_def split: sum.splits)

lemma set_high_Inr:
  "set_high h a hi = Inr h' \<longleftrightarrow>
     (\<exists>shp lo x. read_fields h a = Inr (shp, lo, x) \<and> h' = h[a := SpaceObj shp lo hi])"
  by (auto simp add: set_high_def split: sum.splits)

lemma same_below_refl: "same_below n h h"
  by (simp add: same_below_def)

lemma same_below_trans: "same_below n h h1 \<Longrightarrow> same_below n h1 h2 \<Longrightarrow> same_below n h h2"
  by (simp add: same_below_def)

lemma same_below_alloc: "n \<le> length h \<Longrightarrow> same_below n h (h @ [ob])"
  by (simp add: same_below_def)

lemma same_below_update: "n \<le> a \<Longrightarrow> same_below n h (h[a := ob])"
  by (simp add: same_below_def)

lemma append_bounds_h_frame:
  assumes "append_bounds_h self out h = (h', r)" and "n \<le> out" and "n \<le> length h"
  shows "same_below n h h'"
  using assms
  by (auto simp add: append_bounds_h_def np_append_Inr set_low_Inr set_high_Inr same_below_def
        split: sum.splits prod.splits)

lemma append_loop_frame:
  "append_loop self out k h = (h', r) \<Longrightarrow> n \<le> out \<Longrightarrow> n \<le> length h \<Longrightarrow> same_below n h h'"
proof (induction k arbitrary: h)
  case 0
  then show ?case by (simp add: same_below_refl)
next
  case (Suc k)
  obtain h1 r1 where step: "append_bounds_h self out h = (h1, r1)"
    by (cases "append_bounds_h self out h")
  from append_bounds_h_frame [OF step Suc.prems(2,3)] have sb: "same_below n h h1" .
  show ?case
  proof (cases r1)
    case (Inl e)
    with Suc.prems(1) step sb show ?thesis by simp
  next
    case (Inr u)
    with Suc.prems(1) step have "append_loop self out k h1 = (h', r)" by simp
    from Suc.IH [OF this Suc.prems(2)] sb Suc.prems(3)
    show ?thesis by (auto simp add: same_below_def)
  qed
qed

lemma transform_space_h_frame:
  assumes "transform_space_h self h input_space column_names = (h', r)"
  shows "same_below (length h) h h' \<and>
         (\<forall>out. r = Inr out \<longrightarrow>
            (if inplace self then out = input_space \<and> h' = h
             else out = length h \<and> out < length h'))"
proof (cases "inplace self")
  case True
  with assms show ?thesis by (auto simp add: transform_space_h_def same_below_refl)
next
  case False
  show ?thesis
  proof (cases "py_copy h input_space")
    case (Inl e)
    with assms False show ?thesis by (auto simp add: transform_space_h_def same_below_refl)
  next
    case (Inr p)
    then have h1: "py_copy h input_space = Inr (h @ [h ! input_space], length h)"
      by (cases p) (simp add: py_copy_Inr)
    let ?h1 = "h @ [h ! input_space]"
    have sb1: "same_below (length h) h ?h1" by (simp add: same_below_alloc)
    {
      fix shp lo hi shape_x shape_y k h2 h3 r3
      assume "set_shape ?h1 (length h) shp = Inr h2"
        and loop: "append_loop self (length h) k h2 = (h3, r3)"
      then have sb2: "same_below (length h) ?h1 h2" and len2: "length h2 = Suc (length h)"
        by (auto simp add: set_shape_Inr same_below_def)
      from append_loop_frame [OF loop, of "length h"] len2
      have "same_below (length h) h2 h3" by simp
      with sb1 sb2 len2 have "same_below (length h) h h3 \<and> length h < length h3"
        by (auto simp add: same_below_def)
    }
    note main = this
    from assms False h1 sb1 show ?thesis
      by (auto simp add: transform_space_h_def split: sum.splits list.splits prod.splits
            dest: main)
  qed
qed

lemma same_below_weaken: "same_below m h h' \<Longrightarrow> n \<le> m \<Longrightarrow> same_below n h h'"
proof -
  assume sb: "same_below m h h'" and le: "n \<le> m"
  then have "take n (take m h') = take n (take m h)"
    by (simp only: same_below_def)
  with le have "take n h' = take n h"
    by (simp add: min_absorb1)
  with sb show ?thesis by (simp add: same_below_def)
qed

lemma transform_column_h_cases:
  "transform_column_h fs self sp idx column h X = (h', r) \<Longrightarrow>
     (h' = h \<and> (\<exists>e. r = Inl e)) \<or> (\<exists>ob. h' = h @ [ob] \<and> r = Inr (length h))"
  by (auto simp add: transform_column_h_def alloc_def split: sum.splits prod.splits)

lemma transform_column_h_refines:
  "read_fields h sp = Inr (shp, lo_ref, hi_ref) \<Longrightarrow>
   read_array h lo_ref = Inr lows \<Longrightarrow> read_array h hi_ref = Inr highs \<Longrightarrow>
   read_frame h X = Inr tbl \<Longrightarrow>
   transform_column_h fs self sp idx column h X =
     (case transform_column fs self \<lparr>shape = shp, low = lows, high = highs\<rparr> idx column tbl of
        Inl e \<Rightarrow> (h, Inl e)
      | Inr tbl' \<Rightarrow> (h @ [FrameObj tbl'], Inr (length h)))"
  by (simp add: transform_column_h_def transform_column_def alloc_def split: sum.splits)

lemma transform_loop_h_frame:
  "transform_loop_h fs self sp idx cs h X = (h', r) \<Longrightarrow>
   same_below (length h) h h' \<and>
   (\<forall>X'. r = Inr X' \<longrightarrow>
      (if cs = [] then X' = X \<and> h' = h else length h \<le> X' \<and> X' < length h'))"
proof (induction cs arbitrary: idx h X)
  case Nil
  then show ?case by (auto simp add: same_below_refl)
next
  case (Cons c cs)
  obtain h1 r1 where step: "transform_column_h fs self sp idx c h X = (h1, r1)"
    by (cases "transform_column_h fs self sp idx c h X")
  from transform_column_h_cases [OF step]
  show ?case
  proof (elim disjE conjE exE)
    fix e assume "h1 = h" "r1 = Inl e"
    with Cons.prems step show ?thesis by (auto simp add: same_below_refl)
  next
    fix ob assume h1: "h1 = h @ [ob]" and r1: "r1 = Inr (length h)"
    from Cons.prems step r1
    have rest: "transform_loop_h fs self sp (Suc idx) cs h1 (length h) = (h', r)" by simp
    note ih = Cons.IH [OF rest]
    note sb = ih [THEN conjunct1] and res = ih [THEN conjunct2]
    have "same_below (length h) h h1"
      by (simp add: h1 same_below_alloc)
    moreover have "same_below (length h) h1 h'"
      using sb by (rule same_below_weaken) (simp add: h1)
    ultimately have "same_below (length h) h h'"
      by (rule same_below_trans)
    moreover have "length h \<le> X' \<and> X' < length h'" if "r = Inr X'" for X'
    proof (cases "cs = []")
      case True
      with res that show ?thesis by (simp add: h1)
    next
      case False
      with res that show ?thesis by (simp add: h1)
    qed
    ultimately show ?thesis by simp
  qed
qed

lemma transform_h_frame:
  assumes "transform_h fs self h X sp = (h', r, self')"
  shows "same_below (length h) h h' \<and>
         (\<forall>X'. r = Inr X' \<longrightarrow>
            (if columns self' = Some [] then X' = X \<and> h' = h
             else length h \<le> X' \<and> X' < length h'))"
proof (cases "columns self")
  case None
  show ?thesis
  proof (cases "read_frame h X")
    case (Inl e)
    with assms None show ?thesis by (auto simp add: transform_h_def same_below_refl)
  next
    case (Inr tbl)
    obtain h1 r1 where loop: "transform_loop_h fs (self\<lparr>columns := Some (table_columns tbl)\<rparr>)
        sp 0 (table_columns tbl) h X = (h1, r1)"
      by (cases "transform_loop_h fs (self\<lparr>columns := Some (table_columns tbl)\<rparr>)
        sp 0 (table_columns tbl) h X")
    have "transform_h fs self h X sp = (h1, r1, self\<lparr>columns := Some (table_columns tbl)\<rparr>)"
      by (simp add: transform_h_def None Inr loop)
    from assms [unfolded this]
    have eqs: "h' = h1" "r = r1" "self' = self\<lparr>columns := Some (table_columns tbl)\<rparr>"
      by blast+
    have "columns self' = Some (table_columns tbl)"
      by (simp add: eqs(3))
    with transform_loop_h_frame [OF loop] eqs(1,2) show ?thesis by simp
  qed
next
  case (Some cs)
  obtain h1 r1 where loop: "transform_loop_h fs self sp 0 cs h X = (h1, r1)"
    by (cases "transform_loop_h fs self sp 0 cs h X")
  have "transform_h fs self h X sp = (h1, r1, self)"
    by (simp add: transform_h_def Some loop)
  from assms [unfolded this] have eqs: "h' = h1" "r = r1" "self' = self"
    by blast+
  with transform_loop_h_frame [OF loop] Some show ?thesis by simp
qed

lemma space_at_Inr:
  "space_at h a = Inr s \<longleftrightarrow>
     (\<exists>lo hi. read_fields h a = Inr (shape s, lo, hi) \<and>
        read_array h lo = Inr (low s) \<and> read_array h hi = Inr (high s))"
  by (cases s) (auto simp add: space_at_def split: sum.splits)

lemma read_append [simp]:
  "a < length h \<Longrightarrow> read_fields (h @ [ob]) a = read_fields h a"
  "a < length h \<Longrightarrow> read_array (h @ [ob]) a = read_array h a"
  "a < length h \<Longrightarrow> read_frame (h @ [ob]) a = read_frame h a"
  by (simp_all add: read_fields_def read_array_def read_frame_def deref_def nth_append)

lemma read_Inr_lt:
  "read_fields h a = Inr x \<Longrightarrow> a < length h"
  "read_array h a = Inr xs \<Longrightarrow> a < length h"
  "read_frame h a = Inr tbl \<Longrightarrow> a < length h"
  by (auto simp add: read_fields_def read_array_def read_frame_def deref_def split: if_splits)

lemma space_at_append: "space_at h a = Inr s \<Longrightarrow> space_at (h @ [ob]) a = Inr s"
proof -
  assume "space_at h a = Inr s"
  then obtain lo hi where f: "read_fields h a = Inr (shape s, lo, hi)"
    and l: "read_array h lo = Inr (low s)" and u: "read_array h hi = Inr (high s)"
    by (auto simp add: space_at_Inr)
  from f l u have "a < length h" "lo < length h" "hi < length h"
    by (auto dest: read_Inr_lt)
  with f l u show ?thesis
    unfolding space_at_Inr by (intro exI [of _ lo] exI [of _ hi]) simp
qed

lemma transform_loop_h_refines:
  "space_at h sp = Inr s \<Longrightarrow> read_frame h X = Inr tbl \<Longrightarrow>
   transform_loop_h fs self sp idx cs h X = (h', r) \<Longrightarrow>
   (case transform_loop fs self s idx cs tbl of
      Inl e \<Rightarrow> r = Inl e
    | Inr tbl' \<Rightarrow> \<exists>X'. r = Inr X' \<and> read_frame h' X' = Inr tbl')"
proof (induction cs arbitrary: idx h X tbl)
  case Nil
  then show ?case by auto
next
  case (Cons c cs)
  from Cons.prems(1) obtain lo hi where
    f: "read_fields h sp = Inr (shape s, lo, hi)" and
    l: "read_array h lo = Inr (low s)" and u: "read_array h hi = Inr (high s)"
    by (auto simp add: space_at_Inr)
  have s: "\<lparr>shape = shape s, low = low s, high = high s\<rparr> = s" by simp
  note step = transform_column_h_refines [OF f l u Cons.prems(2), of fs self idx c, unfolded s]
  show ?case
  proof (cases "transform_column fs self s idx c tbl")
    case (Inl e)
    with step Cons.prems(3) show ?thesis by simp
  next
    case (Inr tbl1)
    with step Cons.prems(3)
    have rest: "transform_loop_h fs self sp (Suc idx) cs (h @ [FrameObj tbl1]) (length h) = (h', r)"
      by simp
    have a: "space_at (h @ [FrameObj tbl1]) sp = Inr s"
      using Cons.prems(1) by (rule space_at_append)
    have b: "read_frame (h @ [FrameObj tbl1]) (length h) = Inr tbl1"
      by (simp add: read_frame_Inr)
    from Cons.IH [OF a b rest] Inr show ?thesis by simp
  qed
qed

lemma transform_h_refines:
  assumes "space_at h sp = Inr s" and "read_frame h X = Inr tbl"
    and "transform_h fs self h X sp = (h', r, self')"
  shows "self' = snd (transform fs self tbl s) \<and>
     (case fst (transform fs self tbl s) of
        Inl e \<Rightarrow> r = Inl e
      | Inr tbl' \<Rightarrow> \<exists>X'. r = Inr X' \<and> read_frame h' X' = Inr tbl')"
proof (cases "columns self")
  case None
  let ?self = "self\<lparr>columns := Some (table_columns tbl)\<rparr>"
  obtain h1 r1 where loop: "transform_loop_h fs ?self sp 0 (table_columns tbl) h X = (h1, r1)"
    by (cases "transform_loop_h fs ?self sp 0 (table_columns tbl) h X")
  have "transform_h fs self h X sp = (h1, r1, ?self)"
    by (simp add: transform_h_def None assms(2) loop)
  from assms(3) [unfolded this] have eqs: "h' = h1" "r = r1" "self' = ?self"
    by blast+
  have pure: "transform fs self tbl s = (transform_loop fs ?self s 0 (table_columns tbl) tbl, ?self)"
    by (simp add: transform_def resolve_columns_def None Let_def)
  from transform_loop_h_refines [OF assms(1,2) loop] show ?thesis
    unfolding pure eqs by simp
next
  case (Some cs)
  obtain h1 r1 where loop: "transform_loop_h fs self sp 0 cs h X = (h1, r1)"
    by (cases "transform_loop_h fs self sp 0 cs h X")
  have "transform_h fs self h X sp = (h1, r1, self)"
    by (simp add: transform_h_def Some loop)
  from assms(3) [unfolded this] have eqs: "h' = h1" "r = r1" "self' = self"
    by blast+
  have pure: "transform fs self tbl s = (transform_loop fs self s 0 cs tbl, self)"
    by (simp add: transform_def resolve_columns_def Some Let_def)
  from transform_loop_h_refines [OF assms(1,2) loop] show ?thesis
    unfolding pure eqs by simp
qed

lemma append_bounds_h_refines:
  assumes "space_at h out = Inr so"
  shows "\<exists>h'. append_bounds_h self out h = (h', Inr ()) \<and>
               space_at h' out = Inr (append_bounds self so)"
proof -
  from assms obtain lo hi where
    f: "read_fields h out = Inr (shape so, lo, hi)" and
    l: "read_array h lo = Inr (low so)" and u: "read_array h hi = Inr (high so)"
    by (auto simp add: space_at_Inr)
  from f l u have lt: "out < length h" "lo < length h" "hi < length h"
    by (auto dest: read_Inr_lt)
  from f u have ne: "hi \<noteq> out" "out \<noteq> hi"
    by (auto simp add: read_fields_Inr read_array_Inr)
  define n where "n = length h"
  define h1 where "h1 = h @ [ArrayObj (low so @ [num_val (feature_min self)])]"
  define h2 where "h2 = h1[out := SpaceObj (shape so) n hi]"
  define h3 where "h3 = h2 @ [ArrayObj (high so @ [num_val (feature_max self)])]"
  define h4 where "h4 = h3[out := SpaceObj (shape so) n (Suc n)]"
  have s1: "np_append h lo (num_val (feature_min self)) = Inr (h1, n)"
    by (simp add: np_append_Inr l h1_def n_def)
  have f1: "read_fields h1 out = Inr (shape so, lo, hi)"
    using f lt by (simp add: h1_def)
  have s2: "set_low h1 out n = Inr h2"
    by (simp add: set_low_Inr f1 h2_def)
  have f2: "read_fields h2 out = Inr (shape so, n, hi)"
    using lt by (simp add: read_fields_Inr h2_def h1_def)
  have u2: "read_array h2 hi = Inr (high so)"
    using u lt ne by (simp add: read_array_Inr h2_def h1_def nth_append)
  have len2: "length h2 = Suc n"
    by (simp add: h2_def h1_def n_def)
  have s3: "np_append h2 hi (num_val (feature_max self)) = Inr (h3, Suc n)"
    by (simp add: np_append_Inr u2 h3_def len2)
  have f3: "read_fields h3 out = Inr (shape so, n, hi)"
    using lt by (simp add: read_fields_Inr h3_def h2_def h1_def nth_append)
  have s4: "set_high h3 out (Suc n) = Inr h4"
    by (simp add: set_high_Inr f3 h4_def)
  have run: "append_bounds_h self out h = (h4, Inr ())"
    by (simp add: append_bounds_h_def f s1 s2 f2 s3 s4)
  have "read_fields h4 out = Inr (shape so, n, Suc n)"
    using lt by (simp add: read_fields_Inr h4_def h3_def h2_def h1_def)
  moreover have "read_array h4 n = Inr (low so @ [num_val (feature_min self)])"
    using lt by (simp add: read_array_Inr h4_def h3_def h2_def h1_def n_def nth_append)
  moreover have "read_array h4 (Suc n) = Inr (high so @ [num_val (feature_max self)])"
    using lt by (simp add: read_array_Inr h4_def h3_def h2_def h1_def n_def nth_append)
  ultimately have "space_at h4 out = Inr (append_bounds self so)"
    by (simp add: space_at_Inr append_bounds_def)
  with run show ?thesis by blast
qed

lemma append_loop_refines:
  "space_at h out = Inr so \<Longrightarrow>
   \<exists>h'. append_loop self out k h = (h', Inr ()) \<and>
        space_at h' out = Inr ((append_bounds self ^^ k) so)"
proof (induction k arbitrary: h so)
  case 0
  then show ?case by simp
next
  case (Suc k)
  from append_bounds_h_refines [OF Suc.prems, of self] obtain h1 where
    step: "append_bounds_h self out h = (h1, Inr ())" and
    s1: "space_at h1 out = Inr (append_bounds self so)"
    by blast
  from Suc.IH [OF s1] obtain h' where
    "append_loop self out k h1 = (h', Inr ())" and
    "space_at h' out = Inr ((append_bounds self ^^ k) (append_bounds self so))"
    by blast
  with step show ?case
    by (simp add: funpow_swap1)
qed

lemma transform_space_h_refines:
  assumes "space_at h input_space = Inr s"
    and "transform_space_h self h input_space column_names = (h', r)"
  shows "case transform_space self s column_names of
           Inl e \<Rightarrow> r = Inl e
         | Inr s' \<Rightarrow> \<exists>out. r = Inr out \<and> space_at h' out = Inr s'"
proof (cases "inplace self")
  case True
  with assms show ?thesis
    by (auto simp add: transform_space_h_def transform_space_def)
next
  case False
  from assms(1) obtain lo hi where
    f: "read_fields h input_space = Inr (shape s, lo, hi)" and
    l: "read_array h lo = Inr (low s)" and u: "read_array h hi = Inr (high s)"
    by (auto simp add: space_at_Inr)
  from f l u have lt: "input_space < length h" "lo < length h" "hi < length h"
    by (auto dest: read_Inr_lt)
  define h1 where "h1 = h @ [SpaceObj (shape s) lo hi]"
  have c: "py_copy h input_space = Inr (h1, length h)"
    using f by (simp add: py_copy_Inr read_fields_Inr h1_def)
  have f1: "read_fields h1 input_space = Inr (shape s, lo, hi)"
    using f lt by (simp add: h1_def)
  show ?thesis
  proof (cases "shape s")
    case Nil
    have "transform_space_h self h input_space column_names = (h1, Inl ValueError)"
      by (simp add: transform_space_h_def False c f1 Nil)
    with assms(2) have "r = Inl ValueError" by simp
    with False Nil show ?thesis
      by (simp add: transform_space_def)
  next
    case (Cons shape_x shape_y)
    show ?thesis
    proof (cases "columns_or_range self shape_x")
      case (Inl e)
      have "transform_space_h self h input_space column_names = (h1, Inl e)"
        by (simp add: transform_space_h_def False c f1 Cons Inl)
      with assms(2) have "r = Inl e" by simp
      with False Cons Inl show ?thesis
        by (simp add: transform_space_def)
    next
      case (Inr k)
      define h2 where "h2 = h1[length h := SpaceObj ((shape_x + int k) # shape_y) lo hi]"
      have s2: "set_shape h1 (length h) ((shape_x + int k) # shape_y) = Inr h2"
        by (simp add: set_shape_Inr read_fields_Inr h1_def h2_def)
      have "read_fields h2 (length h) = Inr ((shape_x + int k) # shape_y, lo, hi)"
        by (simp add: read_fields_Inr h2_def h1_def)
      moreover have "read_array h2 lo = Inr (low s)" "read_array h2 hi = Inr (high s)"
        using l u lt by (simp_all add: read_array_Inr h2_def h1_def nth_append)
      ultimately have sp2: "space_at h2 (length h) = Inr (s\<lparr>shape := (shape_x + int k) # shape_y\<rparr>)"
        by (simp add: space_at_Inr)
      from append_loop_refines [OF sp2, of self k] obtain h3 where
        loop: "append_loop self (length h) k h2 = (h3, Inr ())" and
        sp3: "space_at h3 (length h) =
          Inr ((append_bounds self ^^ k) (s\<lparr>shape := (shape_x + int k) # shape_y\<rparr>))"
        by blast
      have "transform_space_h self h input_space column_names = (h3, Inr (length h))"
        by (simp add: transform_space_h_def False c f1 Cons Inr s2 loop)
      with assms(2) have "h' = h3" "r = Inr (length h)" by simp_all
      with sp3 False Cons Inr show ?thesis
        by (simp add: transform_space_def)
    qed
  qed
qed

lemma same_below_nth: "same_below (length h) h h' \<Longrightarrow> a < length h \<Longrightarrow> h' ! a = h ! a"
  unfolding same_below_def by (metis nth_take)

lemma same_below_take: "same_below (length h) h h' \<Longrightarrow> take (length h) h' = h"
  by (simp add: same_below_def)

lemma same_below_reads:
  assumes "same_below (length h) h h'"
  shows "read_frame h a = Inr tbl \<Longrightarrow> read_frame h' a = Inr tbl"
    and "space_at h a = Inr s \<Longrightarrow> space_at h' a = Inr s"
proof -
  have len: "length h \<le> length h'" using assms by (simp add: same_below_def)
  note nth = same_below_nth [OF assms]
  show "read_frame h a = Inr tbl \<Longrightarrow> read_frame h' a = Inr tbl"
    using len by (auto simp add: read_frame_Inr nth)
  show "space_at h a = Inr s \<Longrightarrow> space_at h' a = Inr s"
    using len by (auto simp add: space_at_Inr read_fields_Inr read_array_Inr nth)
qed

lemmas heap_defs = transform_space_h_def py_copy_def deref_def alloc_def read_fields_def
  read_array_def read_frame_def set_shape_def set_low_def set_high_def np_append_def
  append_bounds_h_def columns_or_range_def transform_h_def transform_column_h_def

text \<open>
  C7, as amended. Neither operation changes an object that exists when it is called: the
  store before the call is the beginning of the store after it, whether the call returns
  or raises. So the input descriptor still has its shape and its \<open>low\<close> and \<open>high\<close>, and
  the input table its columns and rows. What is returned is a new object, except that
  \<open>transform_space\<close> in place returns the input descriptor itself and \<open>transform\<close> with an
  empty column set returns the input table itself.
\<close>

theorem inputs_not_mutated:
  "(transform_space_h self h input_space column_names = (h', r) \<longrightarrow>
      take (length h) h' = h \<and>
      (\<forall>s. space_at h input_space = Inr s \<longrightarrow> space_at h' input_space = Inr s) \<and>
      (\<forall>out. r = Inr out \<longrightarrow>
         (if inplace self then out = input_space \<and> h' = h
          else length h \<le> out \<and> out < length h'))) \<and>
   (transform_h fs self h X sp = (h'', r', self') \<longrightarrow>
      take (length h) h'' = h \<and>
      (\<forall>tbl. read_frame h X = Inr tbl \<longrightarrow> read_frame h'' X = Inr tbl) \<and>
      (\<forall>s. space_at h sp = Inr s \<longrightarrow> space_at h'' sp = Inr s) \<and>
      (\<forall>X'. r' = Inr X' \<longrightarrow>
         (if columns self' = Some [] then X' = X \<and> h'' = h
          else length h \<le> X' \<and> X' < length h'')))"
proof (intro conjI impI)
  assume run: "transform_space_h self h input_space column_names = (h', r)"
  note fr = transform_space_h_frame [OF run]
  from fr show "take (length h) h' = h" by (simp add: same_below_take)
  from fr show "\<forall>s. space_at h input_space = Inr s \<longrightarrow> space_at h' input_space = Inr s"
    by (blast intro: same_below_reads)
  from fr show "\<forall>out. r = Inr out \<longrightarrow>
         (if inplace self then out = input_space \<and> h' = h
          else length h \<le> out \<and> out < length h')"
    by (auto split: if_splits)
next
  assume run: "transform_h fs self h X sp = (h'', r', self')"
  note fr = transform_h_frame [OF run]
  from fr show "take (length h) h'' = h" by (simp add: same_below_take)
  from fr show "\<forall>tbl. read_frame h X = Inr tbl \<longrightarrow> read_frame h'' X = Inr tbl"
    by (blast intro: same_below_reads)
  from fr show "\<forall>s. space_at h sp = Inr s \<longrightarrow> space_at h'' sp = Inr s"
    by (blast intro: same_below_reads)
  from fr show "\<forall>X'. r' = Inr X' \<longrightarrow>
         (if columns self' = Some [] then X' = X \<and> h'' = h
          else length h \<le> X' \<and> X' < length h'')"
    by blast
qed

theorem inputs_not_mutated_witness:
  "transform_space_h (init (Some [''price'']) (PyInt 0) (PyInt 1) False)
     [ArrayObj [10], ArrayObj [30], SpaceObj [1] 0 1, FrameObj [(''price'', [10, 20, 30])]] 2 [''price'']
   = ([ArrayObj [10], ArrayObj [30], SpaceObj [1] 0 1, FrameObj [(''price'', [10, 20, 30])],
       SpaceObj [2] 5 6, ArrayObj [10, 0], ArrayObj [30, 1]], Inr 4) \<and>
   transform_h python64 (init (Some [''price'']) (PyInt 0) (PyInt 1) True)
     [ArrayObj [10], ArrayObj [30], SpaceObj [1] 0 1, FrameObj [(''price'', [10, 20, 30])]] 3 2
   = ([ArrayObj [10], ArrayObj [30], SpaceObj [1] 0 1, FrameObj [(''price'', [10, 20, 30])],
       FrameObj [(''price'', [0, 1 / 2, 1])]], Inr 4,
      init (Some [''price'']) (PyInt 0) (PyInt 1) True) \<and>
   take 4 [ArrayObj [10], ArrayObj [30], SpaceObj [1] 0 1, FrameObj [(''price'', [10, 20, 30])],
       SpaceObj [2] 5 6, ArrayObj [10, 0], ArrayObj [30, 1]]
   = [ArrayObj [10], ArrayObj [30], SpaceObj [1] 0 1, FrameObj [(''price'', [10, 20, 30])]]"
proof -
  have run1: "transform_space_h (init (Some [''price'']) (PyInt 0) (PyInt 1) False)
     [ArrayObj [10], ArrayObj [30], SpaceObj [1] 0 1, FrameObj [(''price'', [10, 20, 30])]] 2 [''price'']
   = ([ArrayObj [10], ArrayObj [30], SpaceObj [1] 0 1, FrameObj [(''price'', [10, 20, 30])],
       SpaceObj [2] 5 6, ArrayObj [10, 0], ArrayObj [30, 1]], Inr 4)"
    by (simp add: heap_defs init_def eval_nat_numeral)
  have run2: "transform_h python64 (init (Some [''price'']) (PyInt 0) (PyInt 1) True)
     [ArrayObj [10], ArrayObj [30], SpaceObj [1] 0 1, FrameObj [(''price'', [10, 20, 30])]] 3 2
   = ([ArrayObj [10], ArrayObj [30], SpaceObj [1] 0 1, FrameObj [(''price'', [10, 20, 30])],
       FrameObj [(''price'', [0, 1 / 2, 1])]], Inr 4,
      init (Some [''price'']) (PyInt 0) (PyInt 1) True)"
  proof -
    have nc: "normalized_column python64 (init (Some [''price'']) (PyInt 0) (PyInt 1) True) 10 30
        [(''price'', [10, 20, 30])] ''price'' = Inr [0, 1 / 2, 1]"
      by (simp add: normalized_column_def getitem_def scale_def init_def float_defs)
    show ?thesis
      by (simp add: heap_defs nc [unfolded init_def] array_get_def destination_def init_def
          eval_nat_numeral)
  qed
  from inputs_not_mutated [THEN conjunct1, rule_format, OF run1]
    inputs_not_mutated [THEN conjunct2, rule_format, OF run2] run1 run2
  show ?thesis by simp
qed

text \<open>
  The claim C7 as stated, that both operations return new objects, fails for these two
  calls: in place, \<open>transform_space\<close> returns the reference it was given, and so does
  \<open>transform\<close> when no column is tracked.
\<close>

theorem inplace_returns_the_input_object:
  "transform_space_h (init (Some [''price'']) (PyInt 0) (PyInt 1) True)
     [ArrayObj [10], ArrayObj [30], SpaceObj [1] 0 1, FrameObj [(''price'', [10, 20, 30])]] 2 [''price'']
   = ([ArrayObj [10], ArrayObj [30], SpaceObj [1] 0 1, FrameObj [(''price'', [10, 20, 30])]], Inr 2) \<and>
   transform_h python64 (init (Some []) (PyInt 0) (PyInt 1) True)
     [ArrayObj [10], ArrayObj [30], SpaceObj [1] 0 1, FrameObj [(''price'', [10, 20, 30])]] 3 2
   = ([ArrayObj [10], ArrayObj [30], SpaceObj [1] 0 1, FrameObj [(''price'', [10, 20, 30])]], Inr 3,
      init (Some []) (PyInt 0) (PyInt 1) True)"
  by (simp add: heap_defs init_def)

end
